theory Spec2Isabelle
  imports Main "HOL-Library.Word" "HOL-Library.Multiset"
begin

section \<open>The grid snapshot: \<open>SudokuState\<close>\<close>

text \<open>
  \<^verbatim>\<open>type SudokuState struct { Board [9][9]int }\<close>: a Go array of nine rows of nine
  cells, copied by value on every assignment. The board is a list of rows; the array
  type fixes both dimensions, which \<open>wf_board\<close> records. Cells and coordinates are only
  compared with constants and with one another, never computed with, so the
  integers stand for Go's \<^verbatim>\<open>int\<close>.
\<close>

type_synonym board = "int list list"

record SudokuState =
  Board :: board

definition wf_board :: "board \<Rightarrow> bool" where
  "wf_board b = (length b = 9 \<and> list_all (\<lambda>r. length r = 9) b)"

text \<open>The assignment \<^verbatim>\<open>newBoard[row][col] = v\<close> on a local copy of the array.\<close>

definition set_cell :: "board \<Rightarrow> nat \<Rightarrow> nat \<Rightarrow> int \<Rightarrow> board" where
  "set_cell b row col v = b[row := (b ! row)[col := v]]"

text \<open>
  \<^verbatim>\<open>func (s SudokuState) PlaceNumber(row, col, num int) SudokuState\<close>: three guards
  that return the receiver, then one cell written into a copy. The cell is read only
  after the first guard has put \<open>row\<close> and \<open>col\<close> inside \<open>0..8\<close>.
\<close>

definition PlaceNumber :: "SudokuState \<Rightarrow> int \<Rightarrow> int \<Rightarrow> int \<Rightarrow> SudokuState" where
  "PlaceNumber s row col num =
     (if row < 0 \<or> row > 8 \<or> col < 0 \<or> col > 8 then s
      else if num < 0 \<or> num > 9 then s
      else if Board s ! nat row ! nat col \<noteq> 0 then s
      else (let newBoard = Board s;
                newBoard = set_cell newBoard (nat row) (nat col) num
            in \<lparr>Board = newBoard\<rparr>))"

text \<open>
  \<^verbatim>\<open>func (s SudokuState) Merge(other SudokuState) SudokuState\<close>. The body of the two
  nested loops is \<open>Merge_cell\<close>: the four branches of the source, in its order, each
  writing one cell of \<open>newBoard\<close>. The loops \<^verbatim>\<open>for row := 0; row < 9; row++\<close> and
  \<^verbatim>\<open>for col := 0; col < 9; col++\<close> run over \<open>[0..<9]\<close>.
\<close>

definition Merge_cell :: "SudokuState \<Rightarrow> SudokuState \<Rightarrow> nat \<Rightarrow> nat \<Rightarrow> board \<Rightarrow> board" where
  "Merge_cell s other row col newBoard =
     (if Board s ! row ! col = 0 \<and> Board other ! row ! col \<noteq> 0
        then set_cell newBoard row col (Board other ! row ! col)
      else if Board s ! row ! col \<noteq> 0 \<and> Board other ! row ! col = 0
        then set_cell newBoard row col (Board s ! row ! col)
      else if Board s ! row ! col = Board other ! row ! col
        then set_cell newBoard row col (Board s ! row ! col)
      else set_cell newBoard row col (Board other ! row ! col))"

definition Merge_row :: "SudokuState \<Rightarrow> SudokuState \<Rightarrow> nat \<Rightarrow> board \<Rightarrow> board" where
  "Merge_row s other row newBoard = fold (Merge_cell s other row) [0..<9] newBoard"

definition SudokuState_Merge :: "SudokuState \<Rightarrow> SudokuState \<Rightarrow> SudokuState" where
  "SudokuState_Merge s other =
     (let newBoard = Board s;
          newBoard = fold (Merge_row s other) [0..<9] newBoard
      in \<lparr>Board = newBoard\<rparr>)"

text \<open>
  The predicates the merge laws are stated under, over the 81 cells of two boards:
  no cell filled in both, and no cell filled in both with different values.
\<close>

definition disjoint_cells :: "SudokuState \<Rightarrow> SudokuState \<Rightarrow> bool" where
  "disjoint_cells s other =
     (\<forall>row \<in> set [0..<9]. \<forall>col \<in> set [0..<9].
        Board s ! row ! col = 0 \<or> Board other ! row ! col = 0)"

definition no_conflict :: "SudokuState \<Rightarrow> SudokuState \<Rightarrow> bool" where
  "no_conflict s other =
     (\<forall>row \<in> set [0..<9]. \<forall>col \<in> set [0..<9].
        Board s ! row ! col = 0 \<or> Board other ! row ! col = 0 \<or>
        Board s ! row ! col = Board other ! row ! col)"

text \<open>
  The value the four branches of \<open>Merge_cell\<close> write, as a function of the two cells
  read; \<open>Merge_cell_set_cell\<close> below proves that this is what the branches do.
\<close>

definition merged_value :: "int \<Rightarrow> int \<Rightarrow> int" where
  "merged_value x y =
     (if x = 0 \<and> y \<noteq> 0 then y else if x \<noteq> 0 \<and> y = 0 then x else if x = y then x else y)"

section \<open>The record snapshot: \<open>TodoState\<close>\<close>

text \<open>
  \<^verbatim>\<open>type Todo struct { ID int; Title string; Completed bool; CreatedAt time.Time }\<close> and
  \<^verbatim>\<open>type TodoState struct { Todos []Todo; NextID int }\<close>. Go's \<^verbatim>\<open>int\<close> is a 64-bit
  two's-complement integer on the targets the servers run on: \<open>+\<close> wraps around and
  comparisons are signed (\<open><s\<close>, \<open>sint\<close>). A time stamp is the integer the clock
  returned; \<open>Add\<close> takes the reading of \<^verbatim>\<open>time.Now()\<close> as an argument.
\<close>

record Todo =
  ID :: "64 word"
  Title :: string
  Completed :: bool
  CreatedAt :: int

record TodoState =
  Todos :: "Todo list"
  NextID :: "64 word"

text \<open>The zero value of \<open>Todo\<close>, which \<^verbatim>\<open>make([]Todo, n)\<close> fills a new slice with.\<close>

definition zero_Todo :: Todo where
  "zero_Todo = \<lparr>ID = 0, Title = [], Completed = False, CreatedAt = 0\<rparr>"

text \<open>
  The builtin \<^verbatim>\<open>copy(dst, src)\<close> on slice values: the first
  \<open>min (len dst) (len src)\<close> elements of \<open>dst\<close> are overwritten.
\<close>

definition go_copy :: "'a list \<Rightarrow> 'a list \<Rightarrow> 'a list" where
  "go_copy dst src = (let n = min (length dst) (length src) in take n src @ drop n dst)"

text \<open>The builtin \<^verbatim>\<open>max\<close> on two \<^verbatim>\<open>int\<close>s: the signed maximum.\<close>

definition go_max :: "64 word \<Rightarrow> 64 word \<Rightarrow> 64 word" where
  "go_max x y = (if x <s y then y else x)"

text \<open>
  \<^verbatim>\<open>func (s TodoState) Add(title string) TodoState\<close>: a new slice one element longer
  is made, the old records are copied into it, and the new record is stored at the last
  index. That index is inside the new slice (\<open>Add_index_in_range\<close> below), so the bounds
  check of the store always passes and \<open>Add\<close> has no panicking branch.
\<close>

definition Add :: "TodoState \<Rightarrow> string \<Rightarrow> int \<Rightarrow> TodoState" where
  "Add s title now =
     (let newTodo = \<lparr>ID = NextID s, Title = title, Completed = False, CreatedAt = now\<rparr>;
          newTodos = replicate (length (Todos s) + 1) zero_Todo;
          newTodos = go_copy newTodos (Todos s);
          newTodos = newTodos[length (Todos s) := newTodo]
      in \<lparr>Todos = newTodos, NextID = NextID s + 1\<rparr>)"

text \<open>
  \<^verbatim>\<open>seen := make(map[int]bool)\<close>: reading a key that was never stored gives
  \<^verbatim>\<open>false\<close>, the zero value.
\<close>

definition seen_at :: "(64 word \<rightharpoonup> bool) \<Rightarrow> 64 word \<Rightarrow> bool" where
  "seen_at seen k = (case seen k of None \<Rightarrow> False | Some b \<Rightarrow> b)"

text \<open>
  One \<^verbatim>\<open>for _, todo := range ...\<close> loop of \<open>Merge\<close>; the two loops have the same
  body and share \<open>seen\<close> and \<open>result\<close>.
\<close>

fun Merge_range ::
  "Todo list \<Rightarrow> (64 word \<rightharpoonup> bool) \<times> Todo list \<Rightarrow> (64 word \<rightharpoonup> bool) \<times> Todo list" where
  "Merge_range [] (seen, result) = (seen, result)"
| "Merge_range (todo # rest) (seen, result) =
     (if \<not> seen_at seen (ID todo)
      then Merge_range rest (seen(ID todo \<mapsto> True), result @ [todo])
      else Merge_range rest (seen, result))"

text \<open>\<^verbatim>\<open>func (s TodoState) Merge(other TodoState) TodoState\<close>.\<close>

definition TodoState_Merge :: "TodoState \<Rightarrow> TodoState \<Rightarrow> TodoState" where
  "TodoState_Merge s other =
     (let seen = Map.empty; result = [];
          (seen, result) = Merge_range (Todos s) (seen, result);
          (seen, result) = Merge_range (Todos other) (seen, result);
          maxID = go_max (NextID other) (NextID s)
      in \<lparr>Todos = result, NextID = maxID\<rparr>)"

text \<open>
  The state \<^verbatim>\<open>NewServer()\<close> of the todo server starts from:
  \<^verbatim>\<open>&TodoState{Todos: []Todo{}, NextID: 1}\<close>.
\<close>

definition NewServer_state :: TodoState where
  "NewServer_state = \<lparr>Todos = [], NextID = 1\<rparr>"

text \<open>
  The list \<open>Merge\<close> is proved to build: of the records whose ID is not in \<open>S\<close>, the
  first one of each ID, in the order of the list.
\<close>

fun first_by_ID :: "64 word set \<Rightarrow> Todo list \<Rightarrow> Todo list" where
  "first_by_ID S [] = []"
| "first_by_ID S (t # ts) =
     (if ID t \<in> S then first_by_ID S ts else t # first_by_ID (insert (ID t) S) ts)"

text \<open>The loop invariant of \<open>Merge_range\<close>: \<open>seen\<close> holds the IDs of \<open>result\<close>.\<close>

definition seen_inv :: "(64 word \<rightharpoonup> bool) \<Rightarrow> Todo list \<Rightarrow> bool" where
  "seen_inv seen result = (\<forall>k. seen_at seen k = (k \<in> ID ` set result))"

subsection \<open>\<open>Add\<close> on backing arrays\<close>

text \<open>
  A Go slice is a window (array, offset, length, capacity) on a backing array, and two
  slices may share one. To say that \<open>Add\<close> leaves its receiver alone, the same body is
  written over a store of backing arrays: \<^verbatim>\<open>make\<close> allocates a new array at the
  end of the store, \<^verbatim>\<open>copy\<close> and the indexed store write into the array of their
  destination.
\<close>

type_synonym heap = "Todo list list"

record slice =
  s_arr :: nat
  s_off :: nat
  s_len :: nat
  s_cap :: nat

record TodoState_mem =
  Todos_slice :: slice
  NextID_mem :: "64 word"

definition slice_ok :: "heap \<Rightarrow> slice \<Rightarrow> bool" where
  "slice_ok h sl =
     (s_arr sl < length h \<and> s_len sl \<le> s_cap sl \<and> s_off sl + s_cap sl \<le> length (h ! s_arr sl))"

definition elems :: "heap \<Rightarrow> slice \<Rightarrow> Todo list" where
  "elems h sl = take (s_len sl) (drop (s_off sl) (h ! s_arr sl))"

definition make_slice :: "heap \<Rightarrow> nat \<Rightarrow> heap \<times> slice" where
  "make_slice h n =
     (h @ [replicate n zero_Todo], \<lparr>s_arr = length h, s_off = 0, s_len = n, s_cap = n\<rparr>)"

definition copy_slice :: "heap \<Rightarrow> slice \<Rightarrow> slice \<Rightarrow> heap" where
  "copy_slice h dst src =
     (let n = min (s_len dst) (s_len src);
          vals = take n (elems h src);
          a = h ! s_arr dst
      in h[s_arr dst := take (s_off dst) a @ vals @ drop (s_off dst + n) a])"

definition index_store :: "heap \<Rightarrow> slice \<Rightarrow> nat \<Rightarrow> Todo \<Rightarrow> heap" where
  "index_store h sl i v = h[s_arr sl := (h ! s_arr sl)[s_off sl + i := v]]"

definition Add_mem :: "heap \<Rightarrow> TodoState_mem \<Rightarrow> string \<Rightarrow> int \<Rightarrow> heap \<times> TodoState_mem" where
  "Add_mem h s title now =
     (let newTodo = \<lparr>ID = NextID_mem s, Title = title, Completed = False, CreatedAt = now\<rparr>;
          (h, newTodos) = make_slice h (s_len (Todos_slice s) + 1);
          h = copy_slice h newTodos (Todos_slice s);
          h = index_store h newTodos (s_len (Todos_slice s)) newTodo
      in (h, \<lparr>Todos_slice = newTodos, NextID_mem = NextID_mem s + 1\<rparr>))"

text \<open>The value a state in the store stands for.\<close>

definition view :: "heap \<Rightarrow> TodoState_mem \<Rightarrow> TodoState" where
  "view h s = \<lparr>Todos = elems h (Todos_slice s), NextID = NextID_mem s\<rparr>"

subsection \<open>Snapshots as the tests compare them\<close>

text \<open>
  Go's \<^verbatim>\<open>[]Todo\<close> has two values without elements: the nil slice and a non-nil slice
  of length 0. \<open>Add\<close> and \<open>Merge\<close> read their operands through \<^verbatim>\<open>len\<close>,
  \<^verbatim>\<open>copy\<close> and \<^verbatim>\<open>range\<close>, which treat the two alike, so \<open>TodoState\<close> carries the
  elements. The tests compare snapshots with \<^verbatim>\<open>reflect.DeepEqual\<close>, which tells a nil
  slice from an empty one. \<open>TodoStateWrapper\<close> is the snapshot as the tests hold it
  (\<^verbatim>\<open>state_test.go\<close>): the slice with its nil-ness, and the counter.
\<close>

datatype todo_slice = nil_slice | Slice "Todo list"

record TodoStateWrapper =
  w_Todos :: todo_slice
  w_NextID :: "64 word"

fun elements :: "todo_slice \<Rightarrow> Todo list" where
  "elements nil_slice = []"
| "elements (Slice ts) = ts"

definition unwrap :: "TodoStateWrapper \<Rightarrow> TodoState" where
  "unwrap w = \<lparr>Todos = elements (w_Todos w), NextID = w_NextID w\<rparr>"

text \<open>
  \<^verbatim>\<open>func WrapMerge(a, b *TodoStateWrapper) *TodoStateWrapper\<close>: \<open>Merge\<close> on the two
  states. The slice of the result is the one \<open>Merge\<close> makes with
  \<^verbatim>\<open>make([]Todo, 0, len(s.Todos)+len(other.Todos))\<close>, which is never nil.
\<close>

definition WrapMerge :: "TodoStateWrapper \<Rightarrow> TodoStateWrapper \<Rightarrow> TodoStateWrapper" where
  "WrapMerge a b =
     (let merged = TodoState_Merge (unwrap a) (unwrap b)
      in \<lparr>w_Todos = Slice (Todos merged), w_NextID = NextID merged\<rparr>)"

text \<open>
  \<^verbatim>\<open>func todoStateEqual(a, b *TodoStateWrapper) bool\<close>, that is
  \<^verbatim>\<open>reflect.DeepEqual\<close> on the two states: slices are equal when both are nil, or
  both are not nil and hold equal elements in the same order.
\<close>

fun slice_DeepEqual :: "todo_slice \<Rightarrow> todo_slice \<Rightarrow> bool" where
  "slice_DeepEqual nil_slice nil_slice = True"
| "slice_DeepEqual nil_slice (Slice ys) = False"
| "slice_DeepEqual (Slice xs) nil_slice = False"
| "slice_DeepEqual (Slice xs) (Slice ys) = (xs = ys)"

definition todoStateEqual :: "TodoStateWrapper \<Rightarrow> TodoStateWrapper \<Rightarrow> bool" where
  "todoStateEqual a b = (slice_DeepEqual (w_Todos a) (w_Todos b) \<and> w_NextID a = w_NextID b)"

subsection \<open>Successive requests\<close>

text \<open>
  A run of the todo server: the state after the requests \<open>reqs\<close>, each a title and
  the clock reading of its \<open>Add\<close>.
\<close>

definition Add_all :: "TodoState \<Rightarrow> (string \<times> int) list \<Rightarrow> TodoState" where
  "Add_all s reqs = foldl (\<lambda>s (title, now). Add s title now) s reqs"

section \<open>Example snapshots\<close>

text \<open>Concrete boards, record lists and stores on which the theorems below are run.\<close>

definition grid_left :: SudokuState where
  "grid_left = \<lparr>Board = [[0, 3, 7, 1, 0, 0, 0, 0, 0], [0, 0, 0, 0, 0, 0, 0, 0, 0],
     [0, 0, 0, 0, 0, 0, 0, 0, 0], [0, 0, 0, 0, 0, 0, 0, 0, 0], [0, 0, 0, 0, 0, 0, 0, 0, 0],
     [0, 0, 0, 0, 0, 0, 0, 0, 0], [0, 0, 0, 0, 0, 0, 0, 0, 0], [0, 0, 0, 0, 0, 0, 0, 0, 0],
     [0, 0, 0, 0, 0, 0, 0, 0, 0]]\<rparr>"

definition grid_right :: SudokuState where
  "grid_right = \<lparr>Board = [[5, 0, 7, 2, 0, 0, 0, 0, 0], [0, 0, 0, 0, 0, 0, 0, 0, 0],
     [0, 0, 0, 0, 0, 0, 0, 0, 0], [0, 0, 0, 0, 0, 0, 0, 0, 0], [0, 0, 0, 0, 0, 0, 0, 0, 0],
     [0, 0, 0, 0, 0, 0, 0, 0, 0], [0, 0, 0, 0, 0, 0, 0, 0, 0], [0, 0, 0, 0, 0, 0, 0, 0, 0],
     [0, 0, 0, 0, 0, 0, 0, 0, 0]]\<rparr>"

definition grid_third :: SudokuState where
  "grid_third = \<lparr>Board = [[0, 0, 0, 0, 0, 0, 0, 0, 0], [0, 0, 0, 0, 0, 0, 0, 0, 0],
     [0, 0, 0, 0, 0, 0, 0, 0, 0], [0, 0, 0, 0, 0, 0, 0, 0, 0], [0, 0, 0, 0, 9, 0, 0, 0, 0],
     [0, 0, 0, 0, 0, 0, 0, 0, 0], [0, 0, 0, 0, 0, 0, 0, 0, 0], [0, 0, 0, 0, 0, 0, 0, 0, 0],
     [0, 0, 0, 0, 0, 0, 0, 0, 4]]\<rparr>"

definition grid_fourth :: SudokuState where
  "grid_fourth = \<lparr>Board = [[0, 0, 0, 0, 0, 0, 0, 0, 6], [0, 0, 0, 0, 0, 0, 0, 0, 0],
     [0, 0, 0, 0, 0, 0, 0, 0, 0], [0, 0, 0, 0, 0, 0, 0, 0, 0], [0, 0, 0, 0, 0, 0, 0, 0, 0],
     [0, 0, 0, 0, 0, 0, 0, 0, 0], [0, 0, 0, 0, 0, 0, 0, 0, 0], [0, 8, 0, 0, 0, 0, 0, 0, 0],
     [0, 0, 0, 0, 0, 0, 0, 0, 0]]\<rparr>"

definition todo_a :: TodoState where
  "todo_a = \<lparr>Todos = [\<lparr>ID = 1, Title = ''milk'', Completed = False, CreatedAt = 10\<rparr>,
                      \<lparr>ID = 2, Title = ''eggs'', Completed = False, CreatedAt = 11\<rparr>],
            NextID = 3\<rparr>"

definition todo_b :: TodoState where
  "todo_b = \<lparr>Todos = [\<lparr>ID = 100, Title = ''rent'', Completed = True, CreatedAt = 20\<rparr>],
            NextID = 101\<rparr>"

definition todo_c :: TodoState where
  "todo_c = \<lparr>Todos = [\<lparr>ID = 200, Title = ''call'', Completed = False, CreatedAt = 30\<rparr>],
            NextID = 201\<rparr>"

definition todo_o :: TodoState where
  "todo_o = \<lparr>Todos = [\<lparr>ID = 2, Title = ''bread'', Completed = False, CreatedAt = 40\<rparr>,
                      \<lparr>ID = 300, Title = ''post'', Completed = False, CreatedAt = 41\<rparr>],
            NextID = 301\<rparr>"

definition todo_twice :: TodoState where
  "todo_twice = \<lparr>Todos = [\<lparr>ID = 1, Title = ''milk'', Completed = False, CreatedAt = 10\<rparr>,
                          \<lparr>ID = 1, Title = ''eggs'', Completed = False, CreatedAt = 11\<rparr>],
                NextID = 2\<rparr>"

definition five_left :: "(string \<times> int) list" where
  "five_left = [(''a1'', 1), (''a2'', 2), (''a3'', 3), (''a4'', 4), (''a5'', 5)]"

definition five_right :: "(string \<times> int) list" where
  "five_right = [(''b1'', 6), (''b2'', 7), (''b3'', 8), (''b4'', 9), (''b5'', 10)]"

definition heap_a :: heap where
  "heap_a = [[\<lparr>ID = 1, Title = ''milk'', Completed = False, CreatedAt = 10\<rparr>,
              \<lparr>ID = 2, Title = ''eggs'', Completed = False, CreatedAt = 11\<rparr>]]"

definition mem_a :: TodoState_mem where
  "mem_a = \<lparr>Todos_slice = \<lparr>s_arr = 0, s_off = 0, s_len = 2, s_cap = 2\<rparr>, NextID_mem = 3\<rparr>"

text \<open>
  Wrapped snapshots: \<^verbatim>\<open>TodoState{}\<close>, whose \<open>Todos\<close> is nil, and the two record lists
  above in non-nil slices.
\<close>

definition zero_state :: TodoStateWrapper where
  "zero_state = \<lparr>w_Todos = nil_slice, w_NextID = 0\<rparr>"

definition wrapped_a :: TodoStateWrapper where
  "wrapped_a = \<lparr>w_Todos = Slice (Todos todo_a), w_NextID = NextID todo_a\<rparr>"

definition wrapped_twice :: TodoStateWrapper where
  "wrapped_twice = \<lparr>w_Todos = Slice (Todos todo_twice), w_NextID = NextID todo_twice\<rparr>"

section \<open>Facts about boards\<close>

lemma wf_board_nth: "wf_board b \<Longrightarrow> r < 9 \<Longrightarrow> length (b ! r) = 9"
  by (simp add: wf_board_def list_all_length)

lemma wf_board_length: "wf_board b \<Longrightarrow> length b = 9"
  by (simp add: wf_board_def)

lemma length_set_cell: "length (set_cell b r c v) = length b"
  by (simp add: set_cell_def)

lemma length_set_cell_nth: "length (set_cell b r c v ! r') = length (b ! r')"
  by (cases "r < length b") (auto simp: set_cell_def nth_list_update list_update_beyond)

lemma wf_set_cell: "wf_board b \<Longrightarrow> wf_board (set_cell b r c v)"
  by (simp add: wf_board_def list_all_length length_set_cell length_set_cell_nth)

lemma set_cell_nth:
  "r < length b \<Longrightarrow> c < length (b ! r) \<Longrightarrow>
   set_cell b r c v ! r' ! c' = (if r' = r \<and> c' = c then v else b ! r' ! c')"
  by (auto simp: set_cell_def nth_list_update)

lemma board_eqI:
  assumes "wf_board b" and "wf_board b'"
    and "\<And>r c. r < 9 \<Longrightarrow> c < 9 \<Longrightarrow> b ! r ! c = b' ! r ! c"
  shows "b = b'"
proof (rule nth_equalityI)
  show "length b = length b'"
    using assms(1,2) by (simp add: wf_board_length)
next
  fix r assume "r < length b"
  then have r: "r < 9" using assms(1) by (simp add: wf_board_length)
  show "b ! r = b' ! r"
  proof (rule nth_equalityI)
    show "length (b ! r) = length (b' ! r)"
      using assms(1,2) r by (simp add: wf_board_nth)
  next
    fix c assume "c < length (b ! r)"
    then have "c < 9" using assms(1) r by (simp add: wf_board_nth)
    then show "b ! r ! c = b' ! r ! c" using r assms(3) by simp
  qed
qed

section \<open>The grid merge, cell by cell\<close>

lemma Merge_cell_set_cell:
  "Merge_cell s other row col nb =
     set_cell nb row col (merged_value (Board s ! row ! col) (Board other ! row ! col))"
  by (simp add: Merge_cell_def merged_value_def)

lemma wf_Merge_cell: "wf_board nb \<Longrightarrow> wf_board (Merge_cell s other row col nb)"
  by (simp add: Merge_cell_set_cell wf_set_cell)

lemma wf_fold_Merge_cell: "wf_board nb \<Longrightarrow> wf_board (fold (Merge_cell s other row) cs nb)"
  by (induction cs arbitrary: nb) (simp_all add: wf_Merge_cell)

lemma fold_Merge_cell_nth:
  assumes "wf_board nb" and "row < 9" and "\<forall>c \<in> set cs. c < 9" and "r < 9" and "c < 9"
  shows "fold (Merge_cell s other row) cs nb ! r ! c =
           (if r = row \<and> c \<in> set cs
            then merged_value (Board s ! r ! c) (Board other ! r ! c) else nb ! r ! c)"
  using assms
proof (induction cs arbitrary: nb rule: rev_induct)
  case Nil
  then show ?case by simp
next
  case (snoc x xs)
  let ?mid = "fold (Merge_cell s other row) xs nb"
  have wf: "wf_board ?mid" using snoc.prems(1) by (rule wf_fold_Merge_cell)
  have x: "x < 9" using snoc.prems(3) by simp
  have ih: "?mid ! r ! c = (if r = row \<and> c \<in> set xs
            then merged_value (Board s ! r ! c) (Board other ! r ! c) else nb ! r ! c)"
    using snoc.IH [OF snoc.prems(1,2) _ snoc.prems(4,5)] snoc.prems(3) by simp
  have "fold (Merge_cell s other row) (xs @ [x]) nb ! r ! c =
        set_cell ?mid row x (merged_value (Board s ! row ! x) (Board other ! row ! x)) ! r ! c"
    by (simp add: Merge_cell_set_cell)
  also have "\<dots> = (if r = row \<and> c = x
                  then merged_value (Board s ! row ! x) (Board other ! row ! x) else ?mid ! r ! c)"
    using wf snoc.prems(2) x by (simp add: set_cell_nth wf_board_length wf_board_nth)
  finally show ?case using ih by auto
qed

lemma wf_Merge_row: "wf_board nb \<Longrightarrow> wf_board (Merge_row s other row nb)"
  by (simp add: Merge_row_def wf_fold_Merge_cell)

lemma Merge_row_nth:
  assumes "wf_board nb" and "row < 9" and "r < 9" and "c < 9"
  shows "Merge_row s other row nb ! r ! c =
           (if r = row then merged_value (Board s ! r ! c) (Board other ! r ! c) else nb ! r ! c)"
  using fold_Merge_cell_nth [OF assms(1,2) _ assms(3,4), of "[0..<9]" s other] assms(4)
  by (simp add: Merge_row_def)

lemma wf_fold_Merge_row: "wf_board nb \<Longrightarrow> wf_board (fold (Merge_row s other) rs nb)"
  by (induction rs arbitrary: nb) (simp_all add: wf_Merge_row)

lemma fold_Merge_row_nth:
  assumes "wf_board nb" and "\<forall>row \<in> set rs. row < 9" and "r < 9" and "c < 9"
  shows "fold (Merge_row s other) rs nb ! r ! c =
           (if r \<in> set rs then merged_value (Board s ! r ! c) (Board other ! r ! c) else nb ! r ! c)"
  using assms
proof (induction rs arbitrary: nb rule: rev_induct)
  case Nil
  then show ?case by simp
next
  case (snoc x xs)
  let ?mid = "fold (Merge_row s other) xs nb"
  have wf: "wf_board ?mid" using snoc.prems(1) by (rule wf_fold_Merge_row)
  have x: "x < 9" using snoc.prems(2) by simp
  have ih: "?mid ! r ! c = (if r \<in> set xs
            then merged_value (Board s ! r ! c) (Board other ! r ! c) else nb ! r ! c)"
    using snoc.IH [OF snoc.prems(1) _ snoc.prems(3,4)] snoc.prems(2) by simp
  have "fold (Merge_row s other) (xs @ [x]) nb ! r ! c = Merge_row s other x ?mid ! r ! c"
    by simp
  also have "\<dots> = (if r = x then merged_value (Board s ! r ! c) (Board other ! r ! c)
                  else ?mid ! r ! c)"
    using wf x snoc.prems(3,4) by (rule Merge_row_nth)
  finally show ?case using ih by auto
qed

lemma wf_SudokuState_Merge: "wf_board (Board s) \<Longrightarrow> wf_board (Board (SudokuState_Merge s other))"
  by (simp add: SudokuState_Merge_def wf_fold_Merge_row)

lemma SudokuState_Merge_nth:
  assumes "wf_board (Board s)" and "r < 9" and "c < 9"
  shows "Board (SudokuState_Merge s other) ! r ! c =
           merged_value (Board s ! r ! c) (Board other ! r ! c)"
  using fold_Merge_row_nth [OF assms(1) _ assms(2,3), of "[0..<9]" s other] assms(2)
  by (simp add: SudokuState_Merge_def)

section \<open>The record merge as a list function\<close>

lemma go_copy_into_fresh:
  "go_copy (replicate (length src + 1) z) src = src @ [z]"
proof -
  have "replicate (length src + 1) z = replicate (length src) z @ [z]"
    by (simp add: replicate_append_same)
  then show ?thesis by (simp add: go_copy_def)
qed

lemma Add_index_in_range:
  "length (Todos s) < length (go_copy (replicate (length (Todos s) + 1) zero_Todo) (Todos s))"
  by (simp only: go_copy_into_fresh) simp

lemma Add_Todos: "Todos (Add s title now) =
   Todos s @ [\<lparr>ID = NextID s, Title = title, Completed = False, CreatedAt = now\<rparr>]"
  by (simp add: Add_def go_copy_into_fresh [simplified] Let_def list_update_append)

lemma Add_NextID: "NextID (Add s title now) = NextID s + 1"
  by (simp add: Add_def Let_def)

lemma seen_inv_step:
  "seen_inv seen result \<Longrightarrow> seen_inv (seen(ID t \<mapsto> True)) (result @ [t])"
  by (auto simp: seen_inv_def seen_at_def)

lemma Merge_range_unseen:
  "\<not> seen_at seen (ID t) \<Longrightarrow>
   Merge_range (t # ts) (seen, result) = Merge_range ts (seen(ID t \<mapsto> True), result @ [t])"
  by simp

lemma Merge_range_seen:
  "seen_at seen (ID t) \<Longrightarrow> Merge_range (t # ts) (seen, result) = Merge_range ts (seen, result)"
  by simp

lemma Merge_range_inv:
  "seen_inv seen result \<Longrightarrow>
   seen_inv (fst (Merge_range ts (seen, result))) (snd (Merge_range ts (seen, result)))"
proof (induction ts arbitrary: seen result)
  case Nil
  then show ?case by simp
next
  case (Cons t ts)
  show ?case
  proof (cases "seen_at seen (ID t)")
    case True
    show ?thesis
      unfolding Merge_range_seen [OF True] using Cons.prems by (rule Cons.IH)
  next
    case False
    have "seen_inv (seen(ID t \<mapsto> True)) (result @ [t])"
      using Cons.prems by (rule seen_inv_step)
    then show ?thesis
      unfolding Merge_range_unseen [OF False] by (rule Cons.IH)
  qed
qed

lemma Merge_range_first:
  "seen_inv seen result \<Longrightarrow>
   snd (Merge_range ts (seen, result)) = result @ first_by_ID (ID ` set result) ts"
proof (induction ts arbitrary: seen result)
  case Nil
  then show ?case by simp
next
  case (Cons t ts)
  show ?case
  proof (cases "seen_at seen (ID t)")
    case True
    then have "ID t \<in> ID ` set result" using Cons.prems by (simp add: seen_inv_def)
    then have "first_by_ID (ID ` set result) (t # ts) = first_by_ID (ID ` set result) ts"
      by simp
    then show ?thesis
      unfolding Merge_range_seen [OF True] using Cons.IH [OF Cons.prems] by simp
  next
    case False
    then have "ID t \<notin> ID ` set result" using Cons.prems by (simp add: seen_inv_def)
    then have step: "result @ first_by_ID (ID ` set result) (t # ts) =
        (result @ [t]) @ first_by_ID (ID ` set (result @ [t])) ts"
      by simp
    have "seen_inv (seen(ID t \<mapsto> True)) (result @ [t])"
      using Cons.prems by (rule seen_inv_step)
    then show ?thesis
      unfolding Merge_range_unseen [OF False] step by (rule Cons.IH)
  qed
qed

lemma seen_inv_empty: "seen_inv Map.empty []"
  by (simp add: seen_inv_def seen_at_def)

lemma ids_first_by_ID: "ID ` set (first_by_ID S ts) \<union> S = ID ` set ts \<union> S"
proof (induction ts arbitrary: S)
  case Nil
  then show ?case by simp
next
  case (Cons t ts)
  show ?case
  proof (cases "ID t \<in> S")
    case True
    with Cons.IH [of S] show ?thesis by auto
  next
    case False
    have "ID ` set (first_by_ID S (t # ts)) \<union> S =
          ID ` set (first_by_ID (insert (ID t) S) ts) \<union> insert (ID t) S"
      using False by simp
    also have "\<dots> = ID ` set ts \<union> insert (ID t) S"
      by (rule Cons.IH)
    finally show ?thesis by simp
  qed
qed

lemma ids_first_by_ID_empty: "ID ` set (first_by_ID {} ts) = ID ` set ts"
  using ids_first_by_ID [of "{}" ts] by simp

lemma first_by_ID_append:
  "first_by_ID S (xs @ ys) = first_by_ID S xs @ first_by_ID (S \<union> ID ` set xs) ys"
proof (induction xs arbitrary: S)
  case Nil
  then show ?case by simp
next
  case (Cons x xs)
  show ?case
  proof (cases "ID x \<in> S")
    case True
    then have "S \<union> ID ` set (x # xs) = S \<union> ID ` set xs" by auto
    with True Cons.IH [of S] show ?thesis by simp
  next
    case False
    have "insert (ID x) S \<union> ID ` set xs = S \<union> ID ` set (x # xs)" by auto
    with False Cons.IH [of "insert (ID x) S"] show ?thesis by simp
  qed
qed

lemma TodoState_Merge_Todos:
  "Todos (TodoState_Merge s other) = first_by_ID {} (Todos s @ Todos other)"
proof -
  let ?r1 = "Merge_range (Todos s) (Map.empty, [])"
  have 1: "snd ?r1 = first_by_ID {} (Todos s)"
    using Merge_range_first [OF seen_inv_empty, of "Todos s"] by simp
  have inv: "seen_inv (fst ?r1) (snd ?r1)"
    using seen_inv_empty by (rule Merge_range_inv)
  have 2: "snd (Merge_range (Todos other) (fst ?r1, snd ?r1)) =
           snd ?r1 @ first_by_ID (ID ` set (snd ?r1)) (Todos other)"
    using Merge_range_first [OF inv, of "Todos other"] by simp
  have "Todos (TodoState_Merge s other) = snd (Merge_range (Todos other) (fst ?r1, snd ?r1))"
    by (simp add: TodoState_Merge_def Let_def case_prod_beta)
  also have "\<dots> = first_by_ID {} (Todos s) @ first_by_ID (ID ` set (Todos s)) (Todos other)"
    unfolding 2 by (simp add: 1 ids_first_by_ID_empty)
  finally show ?thesis
    by (simp add: first_by_ID_append)
qed

lemma TodoState_Merge_NextID:
  "NextID (TodoState_Merge s other) = go_max (NextID other) (NextID s)"
  by (simp add: TodoState_Merge_def Let_def case_prod_beta)

lemma first_by_ID_twice: "first_by_ID S (first_by_ID T ts) = first_by_ID (S \<union> T) ts"
proof (induction ts arbitrary: S T)
  case Nil
  then show ?case by simp
next
  case (Cons t ts)
  show ?case
  proof (cases "ID t \<in> T")
    case True
    with Cons.IH [of S T] show ?thesis by simp
  next
    case notT: False
    show ?thesis
    proof (cases "ID t \<in> S")
      case True
      then have "S \<union> insert (ID t) T = S \<union> T" by auto
      with True notT Cons.IH [of S "insert (ID t) T"] show ?thesis by simp
    next
      case False
      have "insert (ID t) S \<union> insert (ID t) T = insert (ID t) (S \<union> T)" by auto
      with False notT Cons.IH [of "insert (ID t) S" "insert (ID t) T"] show ?thesis by simp
    qed
  qed
qed

lemma first_by_ID_distinct: "distinct (map ID (first_by_ID S ts)) \<and> ID ` set (first_by_ID S ts) \<inter> S = {}"
proof (induction ts arbitrary: S)
  case Nil
  then show ?case by simp
next
  case (Cons t ts)
  from Cons.IH [of S] Cons.IH [of "insert (ID t) S"] show ?case by auto
qed

lemma first_by_ID_id:
  "distinct (map ID ts) \<Longrightarrow> ID ` set ts \<inter> S = {} \<Longrightarrow> first_by_ID S ts = ts"
  by (induction ts arbitrary: S) auto

lemma first_by_ID_disjoint:
  "ID ` set ts \<inter> S = {} \<Longrightarrow> first_by_ID (S \<union> T) ts = first_by_ID T ts"
proof (induction ts arbitrary: T)
  case Nil
  then show ?case by simp
next
  case (Cons t ts)
  have notS: "ID t \<notin> S" and rest: "ID ` set ts \<inter> S = {}"
    using Cons.prems by auto
  show ?case
  proof (cases "ID t \<in> T")
    case True
    with Cons.IH [OF rest, of T] show ?thesis by simp
  next
    case False
    have "first_by_ID (S \<union> T) (t # ts) = t # first_by_ID (S \<union> insert (ID t) T) ts"
      using False notS by simp
    also have "\<dots> = t # first_by_ID (insert (ID t) T) ts"
      by (simp only: Cons.IH [OF rest])
    finally show ?thesis using False by simp
  qed
qed

lemma set_first_by_ID: "set (first_by_ID S ts) \<subseteq> set ts"
proof (induction ts arbitrary: S)
  case Nil
  then show ?case by simp
next
  case (Cons t ts)
  from Cons.IH [of S] Cons.IH [of "insert (ID t) S"] show ?case by auto
qed

lemma first_by_ID_find:
  "find (\<lambda>t. ID t = i) (first_by_ID S ts) = (if i \<in> S then None else find (\<lambda>t. ID t = i) ts)"
proof (induction ts arbitrary: S)
  case Nil
  then show ?case by simp
next
  case (Cons t ts)
  show ?case
  proof (cases "ID t \<in> S")
    case True
    then have "ID t = i \<Longrightarrow> i \<in> S" by simp
    with True Cons.IH [of S] show ?thesis by auto
  next
    case False
    with Cons.IH [of "insert (ID t) S"] show ?thesis by auto
  qed
qed

lemma go_max_sint: "sint (go_max x y) = max (sint x) (sint y)"
  by (simp add: go_max_def word_sless_alt max_def)

lemma sint_eqD: "sint (x :: 64 word) = sint y \<Longrightarrow> x = y"
  by (rule signed_word_eqI)

lemma go_max_assoc: "go_max (go_max x y) z = go_max x (go_max y z)"
  by (rule sint_eqD) (simp only: go_max_sint max.assoc)

lemma go_max_commute: "go_max x y = go_max y x"
  by (rule sint_eqD) (simp only: go_max_sint max.commute)

lemma go_max_idem: "go_max x x = x"
  by (simp add: go_max_def)

section \<open>The merge laws\<close>

lemma merged_value_assoc:
  "merged_value (merged_value x y) z = merged_value x (merged_value y z)"
  by (simp add: merged_value_def)

lemma merged_value_idem: "merged_value x x = x"
  by (simp add: merged_value_def)

lemma merged_value_commute:
  "x = 0 \<or> y = 0 \<or> x = y \<Longrightarrow> merged_value x y = merged_value y x"
  by (auto simp: merged_value_def)

lemma SudokuState_eqI: "Board s = Board s' \<Longrightarrow> s = (s' :: SudokuState)"
  by simp

lemma SudokuState_Merge_assoc:
  assumes "wf_board (Board a)" and "wf_board (Board b)"
  shows "SudokuState_Merge (SudokuState_Merge a b) c =
         SudokuState_Merge a (SudokuState_Merge b c)"
proof (rule SudokuState_eqI, rule board_eqI)
  have ab: "wf_board (Board (SudokuState_Merge a b))"
    using assms(1) by (rule wf_SudokuState_Merge)
  show "wf_board (Board (SudokuState_Merge (SudokuState_Merge a b) c))"
    using ab by (rule wf_SudokuState_Merge)
  show "wf_board (Board (SudokuState_Merge a (SudokuState_Merge b c)))"
    using assms(1) by (rule wf_SudokuState_Merge)
  fix r k :: nat
  assume r: "r < 9" and k: "k < 9"
  show "Board (SudokuState_Merge (SudokuState_Merge a b) c) ! r ! k =
        Board (SudokuState_Merge a (SudokuState_Merge b c)) ! r ! k"
    by (simp add: SudokuState_Merge_nth [OF ab r k] SudokuState_Merge_nth [OF assms(1) r k]
        SudokuState_Merge_nth [OF assms(2) r k] merged_value_assoc)
qed

lemma SudokuState_Merge_idem:
  assumes "wf_board (Board a)"
  shows "SudokuState_Merge a a = a"
proof (rule SudokuState_eqI, rule board_eqI)
  show "wf_board (Board (SudokuState_Merge a a))"
    using assms by (rule wf_SudokuState_Merge)
  show "wf_board (Board a)" by (rule assms)
  fix r k :: nat
  assume "r < 9" and "k < 9"
  then show "Board (SudokuState_Merge a a) ! r ! k = Board a ! r ! k"
    by (simp add: SudokuState_Merge_nth [OF assms] merged_value_idem)
qed

lemma no_conflict_nth:
  "no_conflict a b \<Longrightarrow> r < 9 \<Longrightarrow> k < 9 \<Longrightarrow>
   Board a ! r ! k = 0 \<or> Board b ! r ! k = 0 \<or> Board a ! r ! k = Board b ! r ! k"
  by (simp add: no_conflict_def)

lemma disjoint_cells_no_conflict: "disjoint_cells a b \<Longrightarrow> no_conflict a b"
  by (auto simp: disjoint_cells_def no_conflict_def)

lemma SudokuState_Merge_commute:
  assumes "wf_board (Board a)" and "wf_board (Board b)" and "no_conflict a b"
  shows "SudokuState_Merge a b = SudokuState_Merge b a"
proof (rule SudokuState_eqI, rule board_eqI)
  show "wf_board (Board (SudokuState_Merge a b))"
    using assms(1) by (rule wf_SudokuState_Merge)
  show "wf_board (Board (SudokuState_Merge b a))"
    using assms(2) by (rule wf_SudokuState_Merge)
  fix r k :: nat
  assume r: "r < 9" and k: "k < 9"
  have "merged_value (Board a ! r ! k) (Board b ! r ! k) =
        merged_value (Board b ! r ! k) (Board a ! r ! k)"
    using no_conflict_nth [OF assms(3) r k] by (rule merged_value_commute)
  then show "Board (SudokuState_Merge a b) ! r ! k = Board (SudokuState_Merge b a) ! r ! k"
    by (simp add: SudokuState_Merge_nth [OF assms(1) r k] SudokuState_Merge_nth [OF assms(2) r k])
qed

lemma TodoState_eqI: "Todos s = Todos s' \<Longrightarrow> NextID s = NextID s' \<Longrightarrow> s = (s' :: TodoState)"
  by simp

lemma TodoState_Merge_assoc:
  "TodoState_Merge (TodoState_Merge a b) c = TodoState_Merge a (TodoState_Merge b c)"
proof (rule TodoState_eqI)
  let ?A = "Todos a" and ?B = "Todos b" and ?C = "Todos c"
  have l: "first_by_ID {} (first_by_ID {} (?A @ ?B) @ ?C) =
           first_by_ID {} (?A @ ?B) @ first_by_ID (ID ` set (?A @ ?B)) ?C"
    by (simp add: first_by_ID_append [of "{}" "first_by_ID {} (?A @ ?B)"] first_by_ID_twice
        ids_first_by_ID_empty)
  have r: "first_by_ID {} (?A @ first_by_ID {} (?B @ ?C)) =
           first_by_ID {} ?A @ first_by_ID (ID ` set ?A) (?B @ ?C)"
    by (simp add: first_by_ID_append [of "{}" ?A] first_by_ID_twice)
  have "first_by_ID {} (?A @ ?B) @ first_by_ID (ID ` set (?A @ ?B)) ?C =
        first_by_ID {} ?A @ first_by_ID (ID ` set ?A) (?B @ ?C)"
    by (simp add: first_by_ID_append image_Un)
  then show "Todos (TodoState_Merge (TodoState_Merge a b) c) =
        Todos (TodoState_Merge a (TodoState_Merge b c))"
    by (simp only: TodoState_Merge_Todos l r)
  show "NextID (TodoState_Merge (TodoState_Merge a b) c) =
        NextID (TodoState_Merge a (TodoState_Merge b c))"
    by (simp only: TodoState_Merge_NextID go_max_assoc)
qed

lemma first_by_ID_all_seen: "ID ` set ts \<subseteq> S \<Longrightarrow> first_by_ID S ts = []"
  by (induction ts) auto

lemma TodoState_Merge_absorb:
  assumes "distinct (map ID (Todos a))" and "ID ` set (Todos b) \<subseteq> ID ` set (Todos a)"
  shows "Todos (TodoState_Merge a b) = Todos a"
proof -
  have "first_by_ID {} (Todos a) = Todos a"
    using assms(1) by (simp add: first_by_ID_id)
  moreover have "first_by_ID (ID ` set (Todos a)) (Todos b) = []"
    using assms(2) by (rule first_by_ID_all_seen)
  ultimately show ?thesis
    by (simp add: TodoState_Merge_Todos first_by_ID_append)
qed

lemma TodoState_Merge_idem:
  assumes "distinct (map ID (Todos a))"
  shows "TodoState_Merge a a = a"
proof (rule TodoState_eqI)
  show "Todos (TodoState_Merge a a) = Todos a"
    using assms by (simp add: TodoState_Merge_absorb)
  show "NextID (TodoState_Merge a a) = NextID a"
    by (simp add: TodoState_Merge_NextID go_max_idem)
qed

lemma TodoState_Merge_disjoint:
  assumes "ID ` set (Todos a) \<inter> ID ` set (Todos b) = {}"
  shows "Todos (TodoState_Merge a b) = first_by_ID {} (Todos a) @ first_by_ID {} (Todos b)"
proof -
  have "ID ` set (Todos b) \<inter> ID ` set (Todos a) = {}" using assms by auto
  from first_by_ID_disjoint [OF this, of "{}"]
  show ?thesis by (simp add: TodoState_Merge_Todos first_by_ID_append)
qed

lemma find_append_ID:
  "find P (xs @ ys) = (case find P xs of Some t \<Rightarrow> Some t | None \<Rightarrow> find P ys)"
  by (induction xs) simp_all

section \<open>Placing a number\<close>

lemma PlaceNumber_rejects:
  "row < 0 \<or> row > 8 \<or> col < 0 \<or> col > 8 \<or> num < 0 \<or> num > 9 \<Longrightarrow>
   PlaceNumber s row col num = s"
  by (auto simp: PlaceNumber_def)

lemma PlaceNumber_filled:
  "Board s ! nat row ! nat col \<noteq> 0 \<Longrightarrow> PlaceNumber s row col num = s"
  by (simp add: PlaceNumber_def)

lemma PlaceNumber_writes:
  assumes "0 \<le> row" "row \<le> 8" "0 \<le> col" "col \<le> 8" "0 \<le> num" "num \<le> 9"
    and "Board s ! nat row ! nat col = 0"
  shows "PlaceNumber s row col num = \<lparr>Board = set_cell (Board s) (nat row) (nat col) num\<rparr>"
  using assms by (simp add: PlaceNumber_def)

lemma set_cell_same: "b ! r ! c = v \<Longrightarrow> set_cell b r c v = b"
  by (auto simp: set_cell_def)

section \<open>Adding a record\<close>

lemma length_5_cases:
  "length xs = 5 \<Longrightarrow> \<exists>a b c d e. xs = [a, b, c, d, e]"
  by (auto simp: numeral_eq_Suc length_Suc_conv)

lemma Add_all_five_IDs:
  assumes "length reqs = 5"
  shows "map ID (Todos (Add_all NewServer_state reqs)) = [1, 2, 3, 4, 5]"
proof -
  from length_5_cases [OF assms] obtain a b c d e where "reqs = [a, b, c, d, e]" by blast
  then show ?thesis
    by (simp add: Add_all_def NewServer_state_def Add_Todos Add_NextID split_beta)
qed

lemma elems_length: "slice_ok h sl \<Longrightarrow> length (elems h sl) = s_len sl"
  by (auto simp: slice_ok_def elems_def)

lemma Add_mem_eq:
  assumes "slice_ok h (Todos_slice s)"
  shows "Add_mem h s title now =
     (h @ [elems h (Todos_slice s) @
             [\<lparr>ID = NextID_mem s, Title = title, Completed = False, CreatedAt = now\<rparr>]],
      \<lparr>Todos_slice = \<lparr>s_arr = length h, s_off = 0, s_len = s_len (Todos_slice s) + 1,
                       s_cap = s_len (Todos_slice s) + 1\<rparr>,
       NextID_mem = NextID_mem s + 1\<rparr>)"
proof -
  let ?old = "Todos_slice s" and ?n = "s_len (Todos_slice s)"
  let ?h1 = "h @ [replicate (Suc ?n) zero_Todo]"
  let ?new = "\<lparr>s_arr = length h, s_off = 0, s_len = Suc ?n, s_cap = Suc ?n\<rparr>"
  let ?v = "\<lparr>ID = NextID_mem s, Title = title, Completed = False, CreatedAt = now\<rparr>"
  have old: "s_arr ?old < length h" using assms by (simp add: slice_ok_def)
  have len: "length (elems h ?old) = ?n" using assms by (rule elems_length)
  have e1: "elems ?h1 ?old = elems h ?old"
    using old by (simp add: elems_def nth_append)
  have one: "replicate (Suc 0) zero_Todo = [zero_Todo]"
    by simp
  have c: "copy_slice ?h1 ?new ?old = h @ [elems h ?old @ [zero_Todo]]"
    using len by (simp add: copy_slice_def e1 one Let_def del: replicate_Suc)
  have i: "index_store (h @ [elems h ?old @ [zero_Todo]]) ?new ?n ?v = h @ [elems h ?old @ [?v]]"
    using len by (simp add: index_store_def list_update_append)
  show ?thesis
    by (simp add: Add_mem_def make_slice_def c i Let_def del: replicate_Suc)
qed

section \<open>Equality of wrapped snapshots\<close>

lemma unwrap_WrapMerge: "unwrap (WrapMerge a b) = TodoState_Merge (unwrap a) (unwrap b)"
  by (simp add: unwrap_def WrapMerge_def Let_def)

lemma WrapMerge_not_nil: "w_Todos (WrapMerge a b) \<noteq> nil_slice"
  by (simp add: WrapMerge_def Let_def)

lemma todoStateEqual_non_nil:
  assumes "w_Todos a \<noteq> nil_slice" and "w_Todos b \<noteq> nil_slice"
  shows "todoStateEqual a b = (unwrap a = unwrap b)"
proof -
  from assms obtain xs ys where "w_Todos a = Slice xs" and "w_Todos b = Slice ys"
    by (cases "w_Todos a"; cases "w_Todos b") auto
  then show ?thesis
    by (simp add: todoStateEqual_def unwrap_def)
qed

lemma todoStateEqual_iff: "todoStateEqual a b = (a = b)"
proof (cases "w_Todos a"; cases "w_Todos b")
qed (auto simp: todoStateEqual_def)

section \<open>Facts about the example snapshots\<close>

lemma wf_grid_left: "wf_board (Board grid_left)"
  by (simp add: grid_left_def wf_board_def)

lemma wf_grid_right: "wf_board (Board grid_right)"
  by (simp add: grid_right_def wf_board_def)

lemma wf_grid_third: "wf_board (Board grid_third)"
  by (simp add: grid_third_def wf_board_def)

lemma wf_grid_fourth: "wf_board (Board grid_fourth)"
  by (simp add: grid_fourth_def wf_board_def)

lemma upt_9: "[0..<9] = [0, 1, 2, 3, 4, 5, 6, 7, 8]"
  by (simp add: upt_rec)

lemma disjoint_demo:
  "disjoint_cells grid_left grid_third" "disjoint_cells grid_left grid_fourth"
  "disjoint_cells grid_third grid_fourth"
  by (simp_all add: disjoint_cells_def upt_9 grid_left_def grid_third_def grid_fourth_def)

lemma ids_demo:
  "ID ` set (Todos todo_a) \<inter> ID ` set (Todos todo_b) = {}"
  "ID ` set (Todos todo_a) \<inter> ID ` set (Todos todo_c) = {}"
  "ID ` set (Todos todo_b) \<inter> ID ` set (Todos todo_c) = {}"
  by (simp_all add: todo_a_def todo_b_def todo_c_def)

lemma no_conflict_demo: "no_conflict grid_left grid_third"
  using disjoint_demo(1) by (rule disjoint_cells_no_conflict)

section \<open>The claims\<close>

text \<open>
  Claim C1 (record merge). For every pair of \<open>TodoState\<close>s \<open>a\<close> and \<open>b\<close>, the records of
  \<open>a.Merge(b)\<close> have pairwise different IDs, and their IDs are exactly the IDs found in
  \<open>a\<close> or in \<open>b\<close>: each ID of either operand has exactly one record. Every record of
  the result is a record of \<open>a\<close> or of \<open>b\<close>. The record
  carrying an ID \<open>i\<close> is the (first) record of \<open>a\<close> with that ID when \<open>a\<close> has one, and
  otherwise the first such record of \<open>b\<close>: on a shared ID the left operand wins. The
  \<open>NextID\<close> of the result is the larger of the two \<open>NextID\<close>s, as signed integers.
\<close>

theorem TodoState_Merge_by_ID:
  "distinct (map ID (Todos (TodoState_Merge a b))) \<and>
   ID ` set (Todos (TodoState_Merge a b)) = ID ` set (Todos a) \<union> ID ` set (Todos b) \<and>
   set (Todos (TodoState_Merge a b)) \<subseteq> set (Todos a) \<union> set (Todos b) \<and>
   find (\<lambda>t. ID t = i) (Todos (TodoState_Merge a b)) =
     (case find (\<lambda>t. ID t = i) (Todos a) of
        Some t \<Rightarrow> Some t
      | None \<Rightarrow> find (\<lambda>t. ID t = i) (Todos b)) \<and>
   sint (NextID (TodoState_Merge a b)) = max (sint (NextID a)) (sint (NextID b))"
proof (intro conjI)
  show "distinct (map ID (Todos (TodoState_Merge a b)))"
    by (simp add: TodoState_Merge_Todos first_by_ID_distinct)
  show "ID ` set (Todos (TodoState_Merge a b)) = ID ` set (Todos a) \<union> ID ` set (Todos b)"
    by (simp add: TodoState_Merge_Todos ids_first_by_ID_empty image_Un)
  show "set (Todos (TodoState_Merge a b)) \<subseteq> set (Todos a) \<union> set (Todos b)"
    using set_first_by_ID [of "{}" "Todos a @ Todos b"] by (simp add: TodoState_Merge_Todos)
  show "find (\<lambda>t. ID t = i) (Todos (TodoState_Merge a b)) =
     (case find (\<lambda>t. ID t = i) (Todos a) of
        Some t \<Rightarrow> Some t
      | None \<Rightarrow> find (\<lambda>t. ID t = i) (Todos b))"
    by (simp add: TodoState_Merge_Todos first_by_ID_find find_append_ID)
  show "sint (NextID (TodoState_Merge a b)) = max (sint (NextID a)) (sint (NextID b))"
    by (simp add: TodoState_Merge_NextID go_max_sint max.commute)
qed

theorem TodoState_Merge_by_ID_witness:
  "distinct (map ID (Todos (TodoState_Merge todo_a todo_o))) \<and>
   ID ` set (Todos (TodoState_Merge todo_a todo_o)) = {1, 2, 300} \<and>
   find (\<lambda>t. ID t = 2) (Todos (TodoState_Merge todo_a todo_o)) =
     Some \<lparr>ID = 2, Title = ''eggs'', Completed = False, CreatedAt = 11\<rparr> \<and>
   sint (NextID (TodoState_Merge todo_a todo_o)) = 301"
  using TodoState_Merge_by_ID [of todo_a todo_o 2]
  by (simp add: todo_a_def todo_o_def insert_commute)

text \<open>
  Claim C2 (grid merge, cell by cell). For 9 by 9 boards \<open>s\<close> and \<open>other\<close> and every cell
  inside the board, the merged cell is \<open>other\<close>'s value where \<open>s\<close> is empty, \<open>s\<close>'s value
  where \<open>other\<close> is empty, the common value where the two agree, and \<open>other\<close>'s value
  (the right operand) where both are filled and differ.
\<close>

theorem SudokuState_Merge_cellwise:
  assumes "wf_board (Board s)" and "wf_board (Board other)" and "row < 9" and "col < 9"
  shows "(Board s ! row ! col = 0 \<longrightarrow>
            Board (SudokuState_Merge s other) ! row ! col = Board other ! row ! col) \<and>
         (Board other ! row ! col = 0 \<longrightarrow>
            Board (SudokuState_Merge s other) ! row ! col = Board s ! row ! col) \<and>
         (Board s ! row ! col = Board other ! row ! col \<longrightarrow>
            Board (SudokuState_Merge s other) ! row ! col = Board s ! row ! col) \<and>
         (Board s ! row ! col \<noteq> 0 \<and> Board other ! row ! col \<noteq> 0 \<and>
          Board s ! row ! col \<noteq> Board other ! row ! col \<longrightarrow>
            Board (SudokuState_Merge s other) ! row ! col = Board other ! row ! col)"
proof -
  have m: "Board (SudokuState_Merge s other) ! row ! col =
           merged_value (Board s ! row ! col) (Board other ! row ! col)"
    using assms(1,3,4) by (rule SudokuState_Merge_nth)
  show ?thesis
    unfolding m by (simp add: merged_value_def)
qed

theorem SudokuState_Merge_cellwise_witness:
  "wf_board (Board grid_left) \<and> wf_board (Board grid_right) \<and>
   Board (SudokuState_Merge grid_left grid_right) ! 0 ! 0 = 5 \<and>
   Board (SudokuState_Merge grid_left grid_right) ! 0 ! 1 = 3 \<and>
   Board (SudokuState_Merge grid_left grid_right) ! 0 ! 2 = 7 \<and>
   Board (SudokuState_Merge grid_left grid_right) ! 0 ! 3 = 2"
proof -
  note m = SudokuState_Merge_cellwise [OF wf_grid_left wf_grid_right]
  have c0: "Board grid_left ! 0 ! 0 = 0" "Board grid_right ! 0 ! 0 = 5"
    and c1: "Board grid_left ! 0 ! 1 = 3" "Board grid_right ! 0 ! 1 = 0"
    and c2: "Board grid_left ! 0 ! 2 = 7" "Board grid_right ! 0 ! 2 = 7"
    and c3: "Board grid_left ! 0 ! 3 = 1" "Board grid_right ! 0 ! 3 = 2"
    by (simp_all add: grid_left_def grid_right_def)
  have "Board (SudokuState_Merge grid_left grid_right) ! 0 ! 0 = 5"
    using m [of 0 0] c0 by simp
  moreover have "Board (SudokuState_Merge grid_left grid_right) ! 0 ! 1 = 3"
    using m [of 0 1] c1 by simp
  moreover have "Board (SudokuState_Merge grid_left grid_right) ! 0 ! 2 = 7"
    using m [of 0 2] c2 by simp
  moreover have "Board (SudokuState_Merge grid_left grid_right) ! 0 ! 3 = 2"
    using m [of 0 3] c3 by simp
  ultimately show ?thesis
    using wf_grid_left wf_grid_right by simp
qed

text \<open>
  Claim C3 (associativity). For record snapshots \<open>a\<close>, \<open>b\<close>, \<open>c\<close> whose ID sets are
  pairwise disjoint, and for boards \<open>p\<close>, \<open>q\<close>, \<open>r\<close> whose filled cells are pairwise
  disjoint, merging left to right and right to left gives the same snapshot. (The lemmas
  \<open>TodoState_Merge_assoc\<close> and \<open>SudokuState_Merge_assoc\<close> used here need no disjointness.)
\<close>

theorem Merge_associative:
  "(ID ` set (Todos a) \<inter> ID ` set (Todos b) = {} \<and>
    ID ` set (Todos a) \<inter> ID ` set (Todos c) = {} \<and>
    ID ` set (Todos b) \<inter> ID ` set (Todos c) = {} \<longrightarrow>
      TodoState_Merge (TodoState_Merge a b) c = TodoState_Merge a (TodoState_Merge b c)) \<and>
   (wf_board (Board p) \<and> wf_board (Board q) \<and> wf_board (Board r) \<and>
    disjoint_cells p q \<and> disjoint_cells p r \<and> disjoint_cells q r \<longrightarrow>
      SudokuState_Merge (SudokuState_Merge p q) r = SudokuState_Merge p (SudokuState_Merge q r))"
proof (intro conjI impI)
  show "TodoState_Merge (TodoState_Merge a b) c = TodoState_Merge a (TodoState_Merge b c)"
    by (rule TodoState_Merge_assoc)
next
  assume "wf_board (Board p) \<and> wf_board (Board q) \<and> wf_board (Board r) \<and>
    disjoint_cells p q \<and> disjoint_cells p r \<and> disjoint_cells q r"
  then have "wf_board (Board p)" and "wf_board (Board q)"
    by simp_all
  then show "SudokuState_Merge (SudokuState_Merge p q) r =
             SudokuState_Merge p (SudokuState_Merge q r)"
    by (rule SudokuState_Merge_assoc)
qed

theorem Merge_associative_witness:
  "TodoState_Merge (TodoState_Merge todo_a todo_b) todo_c =
     TodoState_Merge todo_a (TodoState_Merge todo_b todo_c) \<and>
   SudokuState_Merge (SudokuState_Merge grid_left grid_third) grid_fourth =
     SudokuState_Merge grid_left (SudokuState_Merge grid_third grid_fourth)"
  using Merge_associative [of todo_a todo_b todo_c grid_left grid_third grid_fourth]
    ids_demo disjoint_demo wf_grid_left wf_grid_third wf_grid_fourth
  by simp

text \<open>
  Claim C4 as stated (\<open>Merge(a, a) == a\<close> for every snapshot) fails on the record
  snapshot \<^verbatim>\<open>TodoState{}\<close>: its \<open>Todos\<close> is the nil slice, \<open>Merge\<close> returns a non-nil
  empty slice, and the equality of the tests tells the two apart. It also fails on a
  record snapshot that holds one ID twice, since \<open>Merge\<close> removes repeated IDs from its
  left operand too: merging \<open>wrapped_twice\<close> with itself returns one record of its two.
\<close>

theorem Merge_idempotent_counterexample:
  "\<not> todoStateEqual (WrapMerge zero_state zero_state) zero_state \<and>
   \<not> todoStateEqual (WrapMerge wrapped_twice wrapped_twice) wrapped_twice"
  by (simp add: todoStateEqual_def WrapMerge_def unwrap_def zero_state_def wrapped_twice_def
      todo_twice_def TodoState_Merge_Todos Let_def)

text \<open>
  Claim C4, amended (idempotence). For every record snapshot whose \<open>Todos\<close> slice is not
  nil and whose record IDs are pairwise different (the invariant of the data model),
  \<open>Merge(a, a)\<close> is equal to \<open>a\<close> under the equality of the tests. With a nil or
  non-nil slice alike, pairwise different IDs give a result with the records of \<open>a\<close>
  in their order and the \<open>NextID\<close> of \<open>a\<close>. For every 9 by 9 board, \<open>Merge(g, g) = g\<close>.
\<close>

theorem Merge_idempotent:
  "(w_Todos w \<noteq> nil_slice \<and> distinct (map ID (elements (w_Todos w))) \<longrightarrow>
      todoStateEqual (WrapMerge w w) w) \<and>
   (distinct (map ID (elements (w_Todos w))) \<longrightarrow> unwrap (WrapMerge w w) = unwrap w) \<and>
   (wf_board (Board g) \<longrightarrow> SudokuState_Merge g g = g)"
proof (intro conjI impI)
  assume a: "w_Todos w \<noteq> nil_slice \<and> distinct (map ID (elements (w_Todos w)))"
  then have d: "distinct (map ID (Todos (unwrap w)))"
    by (simp add: unwrap_def)
  have "unwrap (WrapMerge w w) = unwrap w"
    unfolding unwrap_WrapMerge using d by (rule TodoState_Merge_idem)
  moreover have "w_Todos (WrapMerge w w) \<noteq> nil_slice"
    by (rule WrapMerge_not_nil)
  ultimately show "todoStateEqual (WrapMerge w w) w"
    using a by (simp add: todoStateEqual_non_nil)
next
  assume "distinct (map ID (elements (w_Todos w)))"
  then have d: "distinct (map ID (Todos (unwrap w)))"
    by (simp add: unwrap_def)
  show "unwrap (WrapMerge w w) = unwrap w"
    unfolding unwrap_WrapMerge using d by (rule TodoState_Merge_idem)
next
  assume "wf_board (Board g)"
  then show "SudokuState_Merge g g = g"
    by (rule SudokuState_Merge_idem)
qed

theorem Merge_idempotent_witness:
  "w_Todos wrapped_a \<noteq> nil_slice \<and> distinct (map ID (elements (w_Todos wrapped_a))) \<and>
   todoStateEqual (WrapMerge wrapped_a wrapped_a) wrapped_a \<and>
   distinct (map ID (elements (w_Todos zero_state))) \<and>
   unwrap (WrapMerge zero_state zero_state) = unwrap zero_state \<and>
   wf_board (Board grid_left) \<and> SudokuState_Merge grid_left grid_left = grid_left"
proof -
  have n: "w_Todos wrapped_a \<noteq> nil_slice"
    and d: "distinct (map ID (elements (w_Todos wrapped_a)))"
    and z: "distinct (map ID (elements (w_Todos zero_state)))"
    by (simp_all add: wrapped_a_def todo_a_def zero_state_def)
  show ?thesis
    using Merge_idempotent [of wrapped_a grid_left] Merge_idempotent [of zero_state grid_left]
      n d z wf_grid_left
    by simp
qed

text \<open>
  Claim C5 (commutativity without conflicts). For record snapshots with disjoint ID sets,
  \<open>a.Merge(b)\<close> and \<open>b.Merge(a)\<close> hold the same records (as a set, and with the same
  multiplicities) and the same \<open>NextID\<close>; their order may differ. For boards on which no
  cell is filled in both with different values, \<open>p.Merge(q)\<close> and \<open>q.Merge(p)\<close> are equal.
\<close>

theorem Merge_commutative:
  "(ID ` set (Todos a) \<inter> ID ` set (Todos b) = {} \<longrightarrow>
      set (Todos (TodoState_Merge a b)) = set (Todos (TodoState_Merge b a)) \<and>
      mset (Todos (TodoState_Merge a b)) = mset (Todos (TodoState_Merge b a)) \<and>
      NextID (TodoState_Merge a b) = NextID (TodoState_Merge b a)) \<and>
   (wf_board (Board p) \<and> wf_board (Board q) \<and> no_conflict p q \<longrightarrow>
      SudokuState_Merge p q = SudokuState_Merge q p)"
proof (intro conjI impI)
  assume d: "ID ` set (Todos a) \<inter> ID ` set (Todos b) = {}"
  then have d': "ID ` set (Todos b) \<inter> ID ` set (Todos a) = {}" by auto
  show "mset (Todos (TodoState_Merge a b)) = mset (Todos (TodoState_Merge b a))"
    by (simp add: TodoState_Merge_disjoint [OF d] TodoState_Merge_disjoint [OF d'])
  then show "set (Todos (TodoState_Merge a b)) = set (Todos (TodoState_Merge b a))"
    by (rule mset_eq_setD)
  show "NextID (TodoState_Merge a b) = NextID (TodoState_Merge b a)"
    by (simp only: TodoState_Merge_NextID go_max_commute [of "NextID b"])
next
  assume "wf_board (Board p) \<and> wf_board (Board q) \<and> no_conflict p q"
  then have "wf_board (Board p)" and "wf_board (Board q)" and "no_conflict p q"
    by simp_all
  then show "SudokuState_Merge p q = SudokuState_Merge q p"
    by (rule SudokuState_Merge_commute)
qed

theorem Merge_commutative_witness:
  "set (Todos (TodoState_Merge todo_a todo_b)) = set (Todos (TodoState_Merge todo_b todo_a)) \<and>
   mset (Todos (TodoState_Merge todo_a todo_b)) = mset (Todos (TodoState_Merge todo_b todo_a)) \<and>
   NextID (TodoState_Merge todo_a todo_b) = NextID (TodoState_Merge todo_b todo_a) \<and>
   SudokuState_Merge grid_left grid_third = SudokuState_Merge grid_third grid_left"
  using Merge_commutative [of todo_a todo_b grid_left grid_third]
    ids_demo(1) no_conflict_demo wf_grid_left wf_grid_third
  by simp

text \<open>
  Claim C6 (placing a number). On a 9 by 9 board, \<open>PlaceNumber(row, col, num)\<close> returns
  its receiver when \<open>row\<close> or \<open>col\<close> is outside \<open>0..8\<close>, when \<open>num\<close> is outside \<open>0..9\<close>,
  and when the cell is already filled. Otherwise it returns a 9 by 9 board with \<open>num\<close> in
  that cell and every other cell as in the receiver.
\<close>

theorem PlaceNumber_contract:
  assumes "wf_board (Board s)"
  shows "(row < 0 \<or> row > 8 \<or> col < 0 \<or> col > 8 \<or> num < 0 \<or> num > 9 \<longrightarrow>
            PlaceNumber s row col num = s) \<and>
         (0 \<le> row \<and> row \<le> 8 \<and> 0 \<le> col \<and> col \<le> 8 \<and> Board s ! nat row ! nat col \<noteq> 0 \<longrightarrow>
            PlaceNumber s row col num = s) \<and>
         (0 \<le> row \<and> row \<le> 8 \<and> 0 \<le> col \<and> col \<le> 8 \<and> 0 \<le> num \<and> num \<le> 9 \<and>
          Board s ! nat row ! nat col = 0 \<longrightarrow>
            wf_board (Board (PlaceNumber s row col num)) \<and>
            Board (PlaceNumber s row col num) ! nat row ! nat col = num \<and>
            (\<forall>r < 9. \<forall>c < 9. (r, c) \<noteq> (nat row, nat col) \<longrightarrow>
               Board (PlaceNumber s row col num) ! r ! c = Board s ! r ! c))"
proof (intro conjI impI)
  assume "row < 0 \<or> row > 8 \<or> col < 0 \<or> col > 8 \<or> num < 0 \<or> num > 9"
  then show "PlaceNumber s row col num = s" by (rule PlaceNumber_rejects)
next
  assume "0 \<le> row \<and> row \<le> 8 \<and> 0 \<le> col \<and> col \<le> 8 \<and> Board s ! nat row ! nat col \<noteq> 0"
  then show "PlaceNumber s row col num = s" by (simp add: PlaceNumber_filled)
next
  assume a: "0 \<le> row \<and> row \<le> 8 \<and> 0 \<le> col \<and> col \<le> 8 \<and> 0 \<le> num \<and> num \<le> 9 \<and>
          Board s ! nat row ! nat col = 0"
  then have eq: "Board (PlaceNumber s row col num) = set_cell (Board s) (nat row) (nat col) num"
    by (simp add: PlaceNumber_writes)
  have in9: "nat row < 9" "nat col < 9" using a by arith+
  have r: "nat row < length (Board s)" using in9 assms by (simp add: wf_board_length)
  have c: "nat col < length (Board s ! nat row)" using in9 assms by (simp add: wf_board_nth)
  show "wf_board (Board (PlaceNumber s row col num))"
    unfolding eq using assms by (rule wf_set_cell)
  show "Board (PlaceNumber s row col num) ! nat row ! nat col = num"
    unfolding eq using r c by (simp add: set_cell_nth)
  show "\<forall>r < 9. \<forall>c < 9. (r, c) \<noteq> (nat row, nat col) \<longrightarrow>
               Board (PlaceNumber s row col num) ! r ! c = Board s ! r ! c"
    unfolding eq using r c by (auto simp: set_cell_nth)
qed

theorem PlaceNumber_contract_witness:
  "wf_board (Board grid_left) \<and>
   PlaceNumber grid_left 9 0 5 = grid_left \<and>
   PlaceNumber grid_left 0 (- 1) 5 = grid_left \<and>
   PlaceNumber grid_left 0 0 10 = grid_left \<and>
   PlaceNumber grid_left 0 1 5 = grid_left \<and>
   Board (PlaceNumber grid_left 0 0 5) ! 0 ! 0 = 5 \<and>
   Board (PlaceNumber grid_left 0 0 5) ! 0 ! 1 = 3 \<and>
   Board (PlaceNumber grid_left 0 0 5) ! 4 ! 4 = 0"
proof -
  note p = PlaceNumber_contract [OF wf_grid_left]
  have c: "Board grid_left ! nat 0 ! nat 0 = 0" "Board grid_left ! nat 0 ! nat 1 = 3"
    "Board grid_left ! 0 ! 1 = 3" "Board grid_left ! 4 ! 4 = 0"
    by (simp_all add: grid_left_def)
  have "PlaceNumber grid_left 9 0 5 = grid_left" using p [of 9 0 5] by simp
  moreover have "PlaceNumber grid_left 0 (- 1) 5 = grid_left" using p [of 0 "- 1" 5] by simp
  moreover have "PlaceNumber grid_left 0 0 10 = grid_left" using p [of 0 0 10] by simp
  moreover have "PlaceNumber grid_left 0 1 5 = grid_left" using p [of 0 1 5] c by simp
  moreover have "Board (PlaceNumber grid_left 0 0 5) ! 0 ! 0 = 5" using p [of 0 0 5] c by simp
  moreover have "Board (PlaceNumber grid_left 0 0 5) ! 0 ! 1 = 3" using p [of 0 0 5] c by simp
  moreover have "Board (PlaceNumber grid_left 0 0 5) ! 4 ! 4 = 0" using p [of 0 0 5] c by simp
  ultimately show ?thesis using wf_grid_left by simp
qed

text \<open>
  Claim C7 (ID collision). Two servers that each start from \<open>NextID = 1\<close> and each add
  five records both hold the IDs 1 to 5; merging the second into the first returns the
  five records of the first, and nothing of the second: five records, not ten.
\<close>

theorem collision_keeps_left:
  assumes "length ra = 5" and "length rb = 5"
  shows "Todos (TodoState_Merge (Add_all NewServer_state ra) (Add_all NewServer_state rb)) =
           Todos (Add_all NewServer_state ra) \<and>
         length (Todos (TodoState_Merge (Add_all NewServer_state ra) (Add_all NewServer_state rb))) = 5 \<and>
         map ID (Todos (Add_all NewServer_state ra)) = [1, 2, 3, 4, 5] \<and>
         map ID (Todos (Add_all NewServer_state rb)) = [1, 2, 3, 4, 5]"
proof -
  let ?A = "Add_all NewServer_state ra" and ?B = "Add_all NewServer_state rb"
  have a: "map ID (Todos ?A) = [1, 2, 3, 4, 5]" using assms(1) by (rule Add_all_five_IDs)
  have b: "map ID (Todos ?B) = [1, 2, 3, 4, 5]" using assms(2) by (rule Add_all_five_IDs)
  have d: "distinct (map ID (Todos ?A))" unfolding a by simp
  have "set (map ID (Todos ?B)) \<subseteq> set (map ID (Todos ?A))" unfolding a b by simp
  then have sub: "ID ` set (Todos ?B) \<subseteq> ID ` set (Todos ?A)" by simp
  have eq: "Todos (TodoState_Merge ?A ?B) = Todos ?A"
    using d sub by (rule TodoState_Merge_absorb)
  have "length (map ID (Todos ?A)) = 5" unfolding a by simp
  then have "length (Todos ?A) = 5" by simp
  then show ?thesis using eq a b by simp
qed

theorem collision_keeps_left_witness:
  "length five_left = 5 \<and> length five_right = 5 \<and>
   map Title (Todos (TodoState_Merge (Add_all NewServer_state five_left)
                                     (Add_all NewServer_state five_right))) =
     [''a1'', ''a2'', ''a3'', ''a4'', ''a5''] \<and>
   length (Todos (TodoState_Merge (Add_all NewServer_state five_left)
                                  (Add_all NewServer_state five_right))) = 5"
proof -
  have l: "length five_left = 5" "length five_right = 5"
    by (simp_all add: five_left_def five_right_def)
  have t: "map Title (Todos (Add_all NewServer_state five_left)) =
           [''a1'', ''a2'', ''a3'', ''a4'', ''a5'']"
    by (simp add: five_left_def Add_all_def NewServer_state_def Add_Todos Add_NextID)
  note c = collision_keeps_left [OF l]
  from c have m: "Todos (TodoState_Merge (Add_all NewServer_state five_left)
                                     (Add_all NewServer_state five_right)) =
     Todos (Add_all NewServer_state five_left)"
    by (rule conjunct1)
  from c have n: "length (Todos (TodoState_Merge (Add_all NewServer_state five_left)
                                  (Add_all NewServer_state five_right))) = 5"
    by blast
  show ?thesis
    using l n by (simp only: m t simp_thms)
qed

text \<open>
  Claim C8 (adding a record). \<open>s.Add(title)\<close> returns the records of \<open>s\<close> followed by one
  new record whose ID is \<open>s.NextID\<close>, and its \<open>NextID\<close> is \<open>s.NextID + 1\<close> (Go's \<open>+\<close>
  on \<^verbatim>\<open>int\<close>, which wraps around at the largest value). On the store of backing
  arrays: the state \<open>Add_mem\<close> returns stands for the value \<open>Add\<close> returns, every array that
  existed before the call is unchanged, and the receiver stands for the same value after
  the call as before.
\<close>

theorem Add_appends:
  "Todos (Add s title now) =
     Todos s @ [\<lparr>ID = NextID s, Title = title, Completed = False, CreatedAt = now\<rparr>] \<and>
   NextID (Add s title now) = NextID s + 1 \<and>
   (slice_ok h (Todos_slice m) \<longrightarrow>
      view (fst (Add_mem h m title now)) (snd (Add_mem h m title now)) = Add (view h m) title now \<and>
      take (length h) (fst (Add_mem h m title now)) = h \<and>
      view (fst (Add_mem h m title now)) m = view h m)"
proof (intro conjI impI)
  show "Todos (Add s title now) =
     Todos s @ [\<lparr>ID = NextID s, Title = title, Completed = False, CreatedAt = now\<rparr>]"
    by (rule Add_Todos)
  show "NextID (Add s title now) = NextID s + 1"
    by (rule Add_NextID)
next
  assume ok: "slice_ok h (Todos_slice m)"
  note eq = Add_mem_eq [OF ok, of title now]
  have old: "s_arr (Todos_slice m) < length h" using ok by (simp add: slice_ok_def)
  have len: "length (elems h (Todos_slice m)) = s_len (Todos_slice m)"
    using ok by (rule elems_length)
  show "take (length h) (fst (Add_mem h m title now)) = h"
    by (simp add: eq)
  show "view (fst (Add_mem h m title now)) m = view h m"
    using old by (simp add: eq view_def elems_def nth_append)
  show "view (fst (Add_mem h m title now)) (snd (Add_mem h m title now)) = Add (view h m) title now"
  proof (rule TodoState_eqI)
    show "Todos (view (fst (Add_mem h m title now)) (snd (Add_mem h m title now))) =
          Todos (Add (view h m) title now)"
      using len by (simp add: eq Add_Todos view_def elems_def [of _ "\<lparr>s_arr = _, s_off = _, s_len = _, s_cap = _\<rparr>"])
    show "NextID (view (fst (Add_mem h m title now)) (snd (Add_mem h m title now))) =
          NextID (Add (view h m) title now)"
      by (simp add: eq Add_NextID view_def)
  qed
qed

theorem Add_appends_witness:
  "slice_ok heap_a (Todos_slice mem_a) \<and>
   view heap_a mem_a = todo_a \<and>
   Todos (view (fst (Add_mem heap_a mem_a ''tea'' 12)) (snd (Add_mem heap_a mem_a ''tea'' 12))) =
     [\<lparr>ID = 1, Title = ''milk'', Completed = False, CreatedAt = 10\<rparr>,
      \<lparr>ID = 2, Title = ''eggs'', Completed = False, CreatedAt = 11\<rparr>,
      \<lparr>ID = 3, Title = ''tea'', Completed = False, CreatedAt = 12\<rparr>] \<and>
   NextID (view (fst (Add_mem heap_a mem_a ''tea'' 12)) (snd (Add_mem heap_a mem_a ''tea'' 12))) = 4 \<and>
   take (length heap_a) (fst (Add_mem heap_a mem_a ''tea'' 12)) = heap_a \<and>
   view (fst (Add_mem heap_a mem_a ''tea'' 12)) mem_a = todo_a"
proof -
  have ok: "slice_ok heap_a (Todos_slice mem_a)"
    by (simp add: slice_ok_def heap_a_def mem_a_def)
  have v: "view heap_a mem_a = todo_a"
    by (simp add: view_def elems_def heap_a_def mem_a_def todo_a_def)
  have t: "Todos todo_a = [\<lparr>ID = 1, Title = ''milk'', Completed = False, CreatedAt = 10\<rparr>,
      \<lparr>ID = 2, Title = ''eggs'', Completed = False, CreatedAt = 11\<rparr>]" "NextID todo_a = 3"
    by (simp_all add: todo_a_def)
  show ?thesis
    using Add_appends [of todo_a "''tea''" 12 heap_a mem_a] ok v t by simp
qed

text \<open>
  Claim C10 (placing 0). The value guard lets \<open>0\<close> through, so on an empty cell inside
  the board \<open>PlaceNumber(row, col, 0)\<close> does write, and what it writes is the board it
  started from; on a filled cell the write-once check returns the receiver. Either way
  the result is the receiver. No call of \<open>PlaceNumber\<close>, whatever the number, changes a
  filled cell of a 9 by 9 board.
\<close>

theorem PlaceNumber_zero:
  "PlaceNumber s row col 0 = s \<and>
   (0 \<le> row \<and> row \<le> 8 \<and> 0 \<le> col \<and> col \<le> 8 \<and> Board s ! nat row ! nat col = 0 \<longrightarrow>
      PlaceNumber s row col 0 = \<lparr>Board = set_cell (Board s) (nat row) (nat col) 0\<rparr>) \<and>
   (wf_board (Board s) \<and> r < 9 \<and> c < 9 \<and> Board s ! r ! c \<noteq> 0 \<longrightarrow>
      Board (PlaceNumber s row col num) ! r ! c = Board s ! r ! c)"
proof (intro conjI impI)
  show "PlaceNumber s row col 0 = s"
  proof (cases "Board s ! nat row ! nat col = 0")
    case True
    then have "set_cell (Board s) (nat row) (nat col) 0 = Board s" by (rule set_cell_same)
    then show ?thesis by (simp add: PlaceNumber_def)
  next
    case False
    then show ?thesis by (rule PlaceNumber_filled)
  qed
next
  assume "0 \<le> row \<and> row \<le> 8 \<and> 0 \<le> col \<and> col \<le> 8 \<and> Board s ! nat row ! nat col = 0"
  then show "PlaceNumber s row col 0 = \<lparr>Board = set_cell (Board s) (nat row) (nat col) 0\<rparr>"
    by (simp add: PlaceNumber_writes)
next
  assume a: "wf_board (Board s) \<and> r < 9 \<and> c < 9 \<and> Board s ! r ! c \<noteq> 0"
  show "Board (PlaceNumber s row col num) ! r ! c = Board s ! r ! c"
  proof (cases "PlaceNumber s row col num = s")
    case True
    then show ?thesis by simp
  next
    case False
    then have g: "0 \<le> row" "row \<le> 8" "0 \<le> col" "col \<le> 8" "0 \<le> num" "num \<le> 9"
      and e: "Board s ! nat row ! nat col = 0"
      by (auto simp: PlaceNumber_def split: if_splits)
    have in9: "nat row < 9" "nat col < 9" using g by arith+
    have eq: "Board (PlaceNumber s row col num) = set_cell (Board s) (nat row) (nat col) num"
      using g e by (simp add: PlaceNumber_writes)
    have "(r, c) \<noteq> (nat row, nat col)" using a e by auto
    then show ?thesis
      unfolding eq using a in9 by (auto simp: set_cell_nth wf_board_length wf_board_nth)
  qed
qed

theorem PlaceNumber_zero_witness:
  "PlaceNumber grid_left 0 0 0 = grid_left \<and>
   PlaceNumber grid_left 0 1 0 = grid_left \<and>
   Board (PlaceNumber grid_left 0 1 0) ! 0 ! 1 = 3 \<and>
   Board (PlaceNumber grid_left 0 0 4) ! 0 ! 1 = 3"
proof -
  have c: "Board grid_left ! 0 ! 1 = 3" by (simp add: grid_left_def)
  have "PlaceNumber grid_left 0 0 0 = grid_left"
    using PlaceNumber_zero [of grid_left 0 0] by simp
  moreover have "PlaceNumber grid_left 0 1 0 = grid_left"
    using PlaceNumber_zero [of grid_left 0 1] by simp
  moreover have "Board (PlaceNumber grid_left 0 1 0) ! 0 ! 1 = 3"
    using PlaceNumber_zero [of grid_left 0 1 0 1 0] wf_grid_left c by simp
  moreover have "Board (PlaceNumber grid_left 0 0 4) ! 0 ! 1 = 3"
    using PlaceNumber_zero [of grid_left 0 0 0 1 4] wf_grid_left c by simp
  ultimately show ?thesis by simp
qed

end
